theory Spec2Isabelle
  imports Complex_Main "HOL-Library.Word"
begin

unbundle bit_operations_syntax

section \<open>Street Solar Charger: the control engine of Street\_Solar.ino\<close>

text \<open>
  The sketch keeps all charger state in global variables, written by \<^verbatim>\<open>loop()\<close>
  (the state machine) and by \<^verbatim>\<open>pwm_handler()\<close> (the timer interrupt). The
  embedding passes the globals around as one record. One call of \<^verbatim>\<open>loop()\<close>
  and one call of \<^verbatim>\<open>pwm_handler()\<close> are each taken as one atomic step.

  Types, as on the AVR target of the sketch: \<^verbatim>\<open>unsigned char\<close> is an 8-bit word,
  \<^verbatim>\<open>long int\<close> and \<^verbatim>\<open>unsigned long int\<close> are 32-bit words (the first read
  with \<open>sint\<close>). A \<^verbatim>\<open>double\<close> is modelled as a real number: arithmetic on
  voltages and powers is exact, rounding of the machine format is not part of the model.
  What the conversions between \<^verbatim>\<open>double\<close> and the integer types do (truncation
  towards zero, no defined result out of range) is part of the model.
\<close>

subsection \<open>Constants (the \<^verbatim>\<open>#define\<close>s)\<close>

abbreviation VCHARGE :: real where "VCHARGE \<equiv> 14"
abbreviation NUM_INT :: "8 word" where "NUM_INT \<equiv> 10"
abbreviation D_MIN :: "8 word" where "D_MIN \<equiv> 5"
abbreviation D_MAX :: "8 word" where "D_MAX \<equiv> 98"

subsection \<open>Global variables\<close>

datatype STATES = INIT | INTEGRATE | MPPT | DONE

text \<open>
  \<open>sw1\<close> is the level last written to the pin \<^verbatim>\<open>SW1_PWM\<close>
  (\<open>True\<close> for \<^verbatim>\<open>HIGH\<close>); every other field is the global of the same name.
\<close>

record charger =
  cur_state :: STATES
  duty_cycle :: "8 word"
  v_solar :: real
  v_battery :: real
  vl_cur :: real
  vl_prev :: real
  p_cur :: real
  p_prev :: real
  integral :: "32 word"
  t_cur :: "32 word"
  t_prev :: "32 word"
  num_integrals :: "8 word"
  integral_avg :: "32 word"
  pwm_count :: "8 word"
  new_integral :: bool
  timer_on :: bool
  duty_inc :: bool
  sw1 :: bool

text \<open>
  What one call of \<^verbatim>\<open>loop()\<close> reads from the outside: the macros
  \<^verbatim>\<open>VBAT_MEAS\<close>, \<^verbatim>\<open>VSOL_MEAS\<close>, \<^verbatim>\<open>VL_MEAS\<close> (in volts) and
  \<^verbatim>\<open>micros()\<close>. The MPPT case reads the battery a second time before it computes
  the power: \<open>vbat2\<close> is that reading.
\<close>

record readings =
  vbat :: real
  vsol :: real
  vl :: real
  now :: "32 word"
  vbat2 :: real

text \<open>
  Results without a defined value: the quotient by a zero solar voltage, and a
  \<^verbatim>\<open>double\<close> converted to an integer type that cannot hold its integral part.
\<close>

datatype fault = Divide_By_Zero | Cast_Out_Of_Range

subsection \<open>Conversions\<close>

text \<open>A \<^verbatim>\<open>double\<close> converted to an integer type drops the fraction (towards zero).\<close>

definition c_trunc :: "real \<Rightarrow> int" where
  "c_trunc x = (if 0 \<le> x then \<lfloor>x\<rfloor> else \<lceil>x\<rceil>)"

text \<open>\<^verbatim>\<open>(char) x\<close>: \<^verbatim>\<open>char\<close> is signed and 8 bits wide.\<close>

definition to_char :: "real \<Rightarrow> fault + int" where
  "to_char x =
     (if - 128 \<le> c_trunc x \<and> c_trunc x \<le> 127 then Inr (c_trunc x) else Inl Cast_Out_Of_Range)"

text \<open>A \<^verbatim>\<open>double\<close> stored into a \<^verbatim>\<open>long int\<close>.\<close>

definition to_long :: "real \<Rightarrow> fault + 32 word" where
  "to_long x =
     (if - (2 ^ 31) \<le> c_trunc x \<and> c_trunc x < 2 ^ 31 then Inr (word_of_int (c_trunc x))
      else Inl Cast_Out_Of_Range)"

text \<open>A \<^verbatim>\<open>long int\<close> and an \<^verbatim>\<open>unsigned long int\<close> used in \<^verbatim>\<open>double\<close> arithmetic.\<close>

definition of_long :: "32 word \<Rightarrow> real" where
  "of_long w = real_of_int (sint w)"

definition of_ulong :: "32 word \<Rightarrow> real" where
  "of_ulong w = real (unat w)"

subsection \<open>\<^verbatim>\<open>setup()\<close>\<close>

text \<open>
  The globals start zeroed (\<open>INIT\<close> is the first enumerator); \<^verbatim>\<open>setup()\<close> drives
  the switch low, clears \<open>timer_on\<close> and sets the state to \<open>INIT\<close>.
\<close>

definition setup_charger :: charger where
  "setup_charger = \<lparr> cur_state = INIT, duty_cycle = 0, v_solar = 0, v_battery = 0, vl_cur = 0,
     vl_prev = 0, p_cur = 0, p_prev = 0, integral = 0, t_cur = 0, t_prev = 0,
     num_integrals = 0, integral_avg = 0, pwm_count = 0, new_integral = False,
     timer_on = False, duty_inc = False, sw1 = False \<rparr>"

subsection \<open>\<^verbatim>\<open>check_battery()\<close> and \<^verbatim>\<open>check_solar()\<close>\<close>

definition check_battery :: "real \<Rightarrow> charger \<Rightarrow> charger" where
  "check_battery v s =
     (let s = s\<lparr>v_battery := v\<rparr>
      in if VCHARGE \<le> v_battery s then s\<lparr>timer_on := False, cur_state := DONE\<rparr> else s)"

definition check_solar :: "real \<Rightarrow> charger \<Rightarrow> charger" where
  "check_solar v s = s\<lparr>v_solar := v\<rparr>"

subsection \<open>\<^verbatim>\<open>loop()\<close>, case \<open>INIT\<close>\<close>

definition loop_INIT :: "readings \<Rightarrow> charger \<Rightarrow> fault + charger" where
  "loop_INIT r s =
     (let s = s\<lparr>pwm_count := 0, num_integrals := 0, integral := 0, new_integral := False,
                integral_avg := 0, duty_inc := True, p_cur := 0, p_prev := 0\<rparr>;
          s = check_battery (vbat r) s;
          s = check_solar (vsol r) s;
          s = s\<lparr>vl_prev := vl r\<rparr>
      in if v_solar s = 0 then Inl Divide_By_Zero
         else case to_char (100 * (v_battery s / v_solar s)) of
                Inl e \<Rightarrow> Inl e
              | Inr c \<Rightarrow>
                  Inr (s\<lparr>duty_cycle := word_of_int c, t_cur := now r, t_prev := now r,
                         cur_state := INTEGRATE, timer_on := True\<rparr>))"

subsection \<open>\<^verbatim>\<open>loop()\<close>, case \<open>INTEGRATE\<close>\<close>

text \<open>The area added to the integral, with the branch on the larger sample as written.\<close>

definition vl_dt :: "charger \<Rightarrow> real" where
  "vl_dt s =
     (if vl_prev s \<le> vl_cur s
      then (vl_prev s + (vl_cur s - vl_prev s) / 2) * of_ulong (t_cur s - t_prev s)
      else (vl_cur s + (vl_prev s - vl_cur s) / 2) * of_ulong (t_cur s - t_prev s))"

definition loop_INTEGRATE :: "readings \<Rightarrow> charger \<Rightarrow> fault + charger" where
  "loop_INTEGRATE r s =
     (let s = (if \<not> new_integral s then s\<lparr>sw1 := True\<rparr> else s);
          s = s\<lparr>new_integral := True\<rparr>;
          s = s\<lparr>t_cur := now r\<rparr>;
          s = s\<lparr>vl_cur := vl r\<rparr>
      in case to_long (of_long (integral s) + vl_dt s) of
           Inl e \<Rightarrow> Inl e
         | Inr i \<Rightarrow> Inr (s\<lparr>integral := i, t_prev := t_cur s, vl_prev := vl_cur s\<rparr>))"

subsection \<open>\<^verbatim>\<open>loop()\<close>, case \<open>MPPT\<close>\<close>

text \<open>The two checks and the test for a source too low to charge the battery.\<close>

definition mppt_check :: "readings \<Rightarrow> charger \<Rightarrow> charger" where
  "mppt_check r s =
     (let s = check_battery (vbat r) s;
          s = check_solar (vsol r) s
      in if v_solar s * 98 / 100 < v_battery s
         then s\<lparr>timer_on := False, cur_state := DONE\<rparr> else s)"

text \<open>The block under \<^verbatim>\<open>if (new_integral)\<close>.\<close>

definition mppt_fold :: "charger \<Rightarrow> charger" where
  "mppt_fold s =
     (if new_integral s
      then (let s = s\<lparr>sw1 := False\<rparr>;
                s = s\<lparr>integral_avg := integral_avg s + integral s\<rparr>;
                s = s\<lparr>integral_avg := signed_drop_bit 1 (integral_avg s)\<rparr>;
                s = s\<lparr>num_integrals := num_integrals s + 1\<rparr>
            in s\<lparr>new_integral := False, integral := 0\<rparr>)
      else s)"

text \<open>
  \<^verbatim>\<open>if (++duty_cycle >= D_MAX) duty_cycle = D_MAX;\<close> and
  \<^verbatim>\<open>if (--duty_cycle <= D_MIN) duty_cycle = D_MIN;\<close>
\<close>

definition duty_up :: "8 word \<Rightarrow> 8 word" where
  "duty_up d = (if D_MAX \<le> d + 1 then D_MAX else d + 1)"

definition duty_down :: "8 word \<Rightarrow> 8 word" where
  "duty_down d = (if d - 1 \<le> D_MIN then D_MIN else d - 1)"

text \<open>The block under \<^verbatim>\<open>if (num_integrals == NUM_INT)\<close>.\<close>

definition mppt_decide :: "readings \<Rightarrow> charger \<Rightarrow> charger" where
  "mppt_decide r s =
     (if num_integrals s = NUM_INT
      then (let s = check_battery (vbat2 r) s;
                s = s\<lparr>p_cur := v_battery s * of_long (integral_avg s)\<rparr>;
                s = (if 0 < p_cur s - p_prev s
                     then (if duty_inc s
                           then s\<lparr>duty_cycle := duty_up (duty_cycle s), duty_inc := True\<rparr>
                           else s\<lparr>duty_cycle := duty_down (duty_cycle s), duty_inc := False\<rparr>)
                     else if p_cur s - p_prev s < 0
                     then (if duty_inc s
                           then s\<lparr>duty_cycle := duty_down (duty_cycle s), duty_inc := False\<rparr>
                           else s\<lparr>duty_cycle := duty_up (duty_cycle s), duty_inc := True\<rparr>)
                     else s)
            in s\<lparr>p_prev := p_cur s, num_integrals := 0\<rparr>)
      else s)"

definition loop_MPPT :: "readings \<Rightarrow> charger \<Rightarrow> charger" where
  "loop_MPPT r s = mppt_decide r (mppt_fold (mppt_check r s))"

subsection \<open>\<^verbatim>\<open>loop()\<close>, case \<open>DONE\<close>\<close>

definition loop_DONE :: "readings \<Rightarrow> charger \<Rightarrow> charger" where
  "loop_DONE r s =
     (let s = s\<lparr>timer_on := False\<rparr>;
          s = s\<lparr>sw1 := False\<rparr>;
          s = check_battery (vbat r) s;
          s = check_solar (vsol r) s
      in if v_battery s < VCHARGE \<and> v_battery s \<le> v_solar s * 98 / 100
         then s\<lparr>cur_state := INIT\<rparr> else s)"

subsection \<open>\<^verbatim>\<open>loop()\<close>\<close>

definition loop :: "readings \<Rightarrow> charger \<Rightarrow> fault + charger" where
  "loop r s =
     (case cur_state s of
        INIT \<Rightarrow> loop_INIT r s
      | INTEGRATE \<Rightarrow> loop_INTEGRATE r s
      | MPPT \<Rightarrow> Inr (loop_MPPT r s)
      | DONE \<Rightarrow> Inr (loop_DONE r s))"

subsection \<open>\<^verbatim>\<open>pwm_handler()\<close>\<close>

definition pwm_handler :: "charger \<Rightarrow> charger" where
  "pwm_handler s =
     (if timer_on s
      then (let s = s\<lparr>pwm_count := pwm_count s + 1\<rparr>
            in if pwm_count s \<le> duty_cycle s then s\<lparr>cur_state := INTEGRATE\<rparr>
               else if duty_cycle s < pwm_count s \<and> pwm_count s < 100 then s\<lparr>cur_state := MPPT\<rparr>
               else if 100 \<le> pwm_count s then s\<lparr>pwm_count := 0\<rparr>
               else s)
      else s)"

text \<open>
  The value that one call of the handler assigns to \<open>cur_state\<close>, \<open>None\<close> when the
  call runs no assignment to it (timer off, or the branch that resets the counter).
\<close>

definition pwm_signal :: "charger \<Rightarrow> STATES option" where
  "pwm_signal s =
     (if timer_on s
      then (let c = pwm_count s + 1
            in if c \<le> duty_cycle s then Some INTEGRATE
               else if duty_cycle s < c \<and> c < 100 then Some MPPT
               else None)
      else None)"

subsection \<open>Runs\<close>


text \<open>
  The states the charger can be in between two steps: after \<^verbatim>\<open>setup()\<close>, after a
  call of the interrupt handler, after a call of \<^verbatim>\<open>loop()\<close> that returned.
\<close>

inductive reachable :: "charger \<Rightarrow> bool" where
  power_up: "reachable setup_charger"
| tick: "reachable s \<Longrightarrow> reachable (pwm_handler s)"
| dispatch: "reachable s \<Longrightarrow> loop r s = Inr s' \<Longrightarrow> reachable s'"

subsection \<open>The specification's side\<close>




subsection \<open>Concrete readings and states\<close>

text \<open>A 12 V battery under an 18 V panel, and the state the first \<open>INIT\<close> leaves.\<close>

definition nominal_readings :: readings where
  "nominal_readings = \<lparr> vbat = 12, vsol = 18, vl = 0, now = 0, vbat2 = 12 \<rparr>"

definition nominal_state :: charger where
  "nominal_state = \<lparr> cur_state = INTEGRATE, duty_cycle = 66, v_solar = 18, v_battery = 12,
     vl_cur = 0, vl_prev = 0, p_cur = 0, p_prev = 0, integral = 0, t_cur = 0, t_prev = 0,
     num_integrals = 0, integral_avg = 0, pwm_count = 0, new_integral = False,
     timer_on = True, duty_inc = True, sw1 = False \<rparr>"


text \<open>Power-up with the panel below the battery: 10 V against 12 V.\<close>

definition low_sun_readings :: readings where
  "low_sun_readings = \<lparr> vbat = 12, vsol = 10, vl = 0, now = 0, vbat2 = 12 \<rparr>"

definition low_sun_state :: charger where
  "low_sun_state = \<lparr> cur_state = INTEGRATE, duty_cycle = 120, v_solar = 10, v_battery = 12,
     vl_cur = 0, vl_prev = 0, p_cur = 0, p_prev = 0, integral = 0, t_cur = 0, t_prev = 0,
     num_integrals = 0, integral_avg = 0, pwm_count = 0, new_integral = False,
     timer_on = True, duty_inc = True, sw1 = False \<rparr>"

text \<open>The charger one tick after the duty window of that period: the first \<open>MPPT\<close> tick.\<close>

definition off_phase_state :: charger where
  "off_phase_state = \<lparr> cur_state = MPPT, duty_cycle = 66, v_solar = 18, v_battery = 12,
     vl_cur = 0, vl_prev = 0, p_cur = 0, p_prev = 0, integral = 0, t_cur = 0, t_prev = 0,
     num_integrals = 0, integral_avg = 0, pwm_count = 67, new_integral = False,
     timer_on = True, duty_inc = True, sw1 = False \<rparr>"

text \<open>The panel has dropped to 10 V under a 12 V battery.\<close>

definition dusk_readings :: readings where
  "dusk_readings = \<lparr> vbat = 12, vsol = 10, vl = 0, now = 0, vbat2 = 12 \<rparr>"





text \<open>Entry into \<open>MPPT\<close> with a negative average and an odd sum: \<open>- 10 + 7\<close>.\<close>

definition entry_state :: charger where
  "entry_state = \<lparr> cur_state = MPPT, duty_cycle = 66, v_solar = 18, v_battery = 12,
     vl_cur = 0, vl_prev = 0, p_cur = 0, p_prev = 0, integral = 7, t_cur = 0, t_prev = 0,
     num_integrals = 3, integral_avg = - 10, pwm_count = 67, new_integral = True,
     timer_on = True, duty_inc = True, sw1 = True \<rparr>"





section \<open>Properties\<close>

subsection \<open>Conversions\<close>




subsection \<open>The battery check\<close>

lemma check_battery_fields [simp]:
  "v_battery (check_battery v s) = v"
  "v_solar (check_battery v s) = v_solar s"
  "duty_cycle (check_battery v s) = duty_cycle s"
  "integral (check_battery v s) = integral s"
  "integral_avg (check_battery v s) = integral_avg s"
  "num_integrals (check_battery v s) = num_integrals s"
  "new_integral (check_battery v s) = new_integral s"
  "pwm_count (check_battery v s) = pwm_count s"
  "duty_inc (check_battery v s) = duty_inc s"
  "p_prev (check_battery v s) = p_prev s"
  "p_cur (check_battery v s) = p_cur s"
  "sw1 (check_battery v s) = sw1 s"
  "vl_prev (check_battery v s) = vl_prev s"
  "t_prev (check_battery v s) = t_prev s"
  by (simp_all add: check_battery_def Let_def)

lemma check_battery_state:
  "cur_state (check_battery v s) = (if VCHARGE \<le> v then DONE else cur_state s)"
  "timer_on (check_battery v s) = (\<not> VCHARGE \<le> v \<and> timer_on s)"
  by (simp_all add: check_battery_def Let_def)

subsection \<open>The \<open>INIT\<close> case: the seed of the duty cycle\<close>

lemma loop_INIT_Inr:
  assumes "vsol r \<noteq> 0" and "- 129 < 100 * vbat r / vsol r" and "100 * vbat r / vsol r < 128"
  shows "\<exists>s'. loop_INIT r s = Inr s'
           \<and> duty_cycle s' = word_of_int (c_trunc (100 * vbat r / vsol r))"
proof -
  let ?q = "100 * vbat r / vsol r"
  have "- 128 \<le> c_trunc ?q \<and> c_trunc ?q \<le> 127"
    using assms(2,3) unfolding c_trunc_def by (simp; linarith)
  then show ?thesis
    using assms(1) by (simp add: loop_INIT_def Let_def check_solar_def to_char_def)
qed

lemma loop_INIT_fields:
  "loop_INIT r s = Inr s' \<Longrightarrow>
   cur_state s' = INTEGRATE \<and> timer_on s' \<and> sw1 s' = sw1 s \<and> \<not> new_integral s'
   \<and> pwm_count s' = 0"
  by (auto simp: loop_INIT_def Let_def check_solar_def split: if_splits sum.splits)

text \<open>Without a solar voltage the quotient, and with it the call, has no result.\<close>

lemma loop_INIT_zero_solar: "vsol r = 0 \<Longrightarrow> loop_INIT r s = Inl Divide_By_Zero"
  by (simp add: loop_INIT_def Let_def check_solar_def)

lemma nominal_state_reached: "loop nominal_readings setup_charger = Inr nominal_state"
  by (simp add: loop_def loop_INIT_def nominal_readings_def nominal_state_def setup_charger_def
      check_battery_def check_solar_def to_char_def c_trunc_def Let_def)

lemma low_sun_state_reached: "loop low_sun_readings setup_charger = Inr low_sun_state"
  by (simp add: loop_def loop_INIT_def low_sun_readings_def low_sun_state_def setup_charger_def
      check_battery_def check_solar_def to_char_def c_trunc_def Let_def)




text \<open>
  Claim C1 at the first call of \<^verbatim>\<open>loop()\<close> after power-up, with a battery at 12 V and
  a panel at 10 V: \<open>INIT\<close> stores the quotient 120 as it is, above \<open>D_MAX\<close>.
\<close>

theorem init_seed_exceeds_D_MAX:
  "loop low_sun_readings setup_charger = Inr low_sun_state
   \<and> duty_cycle low_sun_state = 120 \<and> D_MAX < duty_cycle low_sun_state"
  by (simp add: loop_def loop_INIT_def low_sun_readings_def low_sun_state_def setup_charger_def
      check_battery_def check_solar_def to_char_def c_trunc_def Let_def)

text \<open>
  What \<open>INIT\<close> does guarantee: the seed is within the bounds when the quotient is,
  that is for \<open>5 \<le> 100 * v_battery / v_solar < 99\<close>.
\<close>

lemma loop_INIT_duty_bounds:
  assumes "vsol r \<noteq> 0" and "5 \<le> 100 * vbat r / vsol r" and "100 * vbat r / vsol r < 99"
  shows "\<exists>s'. loop_INIT r s = Inr s' \<and> D_MIN \<le> duty_cycle s' \<and> duty_cycle s' \<le> D_MAX"
proof -
  let ?q = "100 * vbat r / vsol r"
  from assms(2,3) have "- 129 < ?q" "?q < 128" by simp_all
  from loop_INIT_Inr [OF assms(1) this] obtain s' where
    s': "loop_INIT r s = Inr s'" "duty_cycle s' = word_of_int (c_trunc ?q)" by blast
  from assms(2,3) have k: "5 \<le> c_trunc ?q" "c_trunc ?q \<le> 98"
    unfolding c_trunc_def by (simp; linarith)+
  then have "uint (word_of_int (c_trunc ?q) :: 8 word) = c_trunc ?q"
    by (simp add: uint_word_of_int take_bit_int_eq_self)
  with k have "D_MIN \<le> duty_cycle s' \<and> duty_cycle s' \<le> D_MAX"
    by (simp add: s'(2) word_le_def)
  with s'(1) show ?thesis by blast
qed

subsection \<open>The interrupt handler\<close>

lemma pwm_handler_signal:
  "cur_state (pwm_handler s) = (case pwm_signal s of Some p \<Rightarrow> p | None \<Rightarrow> cur_state s)"
  by (simp add: pwm_handler_def pwm_signal_def Let_def)

lemma pwm_handler_off: "\<not> timer_on s \<Longrightarrow> pwm_handler s = s"
  by (simp add: pwm_handler_def)

lemma pwm_handler_keeps [simp]:
  "duty_cycle (pwm_handler s) = duty_cycle s"
  "timer_on (pwm_handler s) = timer_on s"
  "sw1 (pwm_handler s) = sw1 s"
  "new_integral (pwm_handler s) = new_integral s"
  by (simp_all add: pwm_handler_def Let_def)

lemma pwm_handler_state:
  "timer_on s \<Longrightarrow> cur_state (pwm_handler s) = cur_state s
     \<or> cur_state (pwm_handler s) = INTEGRATE \<or> cur_state (pwm_handler s) = MPPT"
  by (auto simp: pwm_handler_def Let_def)

lemma pwm_handler_INTEGRATE:
  "timer_on s \<Longrightarrow> pwm_count s + 1 \<le> duty_cycle s \<Longrightarrow>
   pwm_handler s = s\<lparr>pwm_count := pwm_count s + 1, cur_state := INTEGRATE\<rparr>"
  by (simp add: pwm_handler_def Let_def)

lemma pwm_handler_MPPT:
  "timer_on s \<Longrightarrow> duty_cycle s < pwm_count s + 1 \<Longrightarrow> pwm_count s + 1 < 100 \<Longrightarrow>
   pwm_handler s = s\<lparr>pwm_count := pwm_count s + 1, cur_state := MPPT\<rparr>"
  by (simp add: pwm_handler_def Let_def not_le)

text \<open>Ticks inside the duty window, and ticks after it up to the count of 99.\<close>

lemma ticks_INTEGRATE:
  "timer_on s \<Longrightarrow> cur_state s = INTEGRATE \<Longrightarrow>
   unat (pwm_count s) + n \<le> unat (duty_cycle s) \<Longrightarrow>
   (pwm_handler ^^ n) s = s\<lparr>pwm_count := pwm_count s + of_nat n\<rparr>"
proof (induction n)
  case 0
  then show ?case by simp
next
  case (Suc n)
  let ?m = "s\<lparr>pwm_count := pwm_count s + of_nat n\<rparr>"
  from Suc have m: "(pwm_handler ^^ n) s = ?m" by simp
  have d: "unat (duty_cycle s) < 256" using unsigned_less [of "duty_cycle s"] by simp
  have "unat (pwm_count s + of_nat n + 1) = unat (pwm_count s) + n + 1"
    using Suc.prems(3) d by (simp add: unat_word_ariths unat_of_nat)
  then have "pwm_count ?m + 1 \<le> duty_cycle ?m"
    using Suc.prems(3) by (simp add: word_le_nat_alt)
  from pwm_handler_INTEGRATE [OF _ this] Suc.prems(1,2) show ?case
    by (simp add: m add.assoc)
qed



lemma off_phase_state_reached: "(pwm_handler ^^ 67) nominal_state = off_phase_state"
proof -
  let ?a = "nominal_state\<lparr>pwm_count := 66\<rparr>"
  have "timer_on nominal_state" "cur_state nominal_state = INTEGRATE"
    "unat (pwm_count nominal_state) + 66 \<le> unat (duty_cycle nominal_state)"
    by (simp_all add: nominal_state_def)
  from ticks_INTEGRATE [OF this] have a: "(pwm_handler ^^ 66) nominal_state = ?a"
    by (simp add: nominal_state_def)
  have "timer_on ?a" "duty_cycle ?a < pwm_count ?a + 1" "pwm_count ?a + 1 < 100"
    by (simp_all add: nominal_state_def)
  from pwm_handler_MPPT [OF this] have b: "pwm_handler ?a = off_phase_state"
    by (simp add: nominal_state_def off_phase_state_def)
  have "(pwm_handler ^^ 67) nominal_state = pwm_handler ((pwm_handler ^^ 66) nominal_state)"
    using funpow.simps(2) [of 66 pwm_handler] by simp
  with a b show ?thesis by simp
qed




text \<open>
  Claim C4 after power-up with a battery at 12 V and a panel at 10 V: \<open>INIT\<close> seeds a
  duty cycle of 120, every tick up to the duty cycle takes the first branch of the
  handler, and after 100 ticks the counter stands at 100.
\<close>

theorem pwm_count_reaches_100:
  "loop low_sun_readings setup_charger = Inr low_sun_state
   \<and> pwm_count ((pwm_handler ^^ 100) low_sun_state) = 100"
proof -
  have "timer_on low_sun_state" "cur_state low_sun_state = INTEGRATE"
    "unat (pwm_count low_sun_state) + 100 \<le> unat (duty_cycle low_sun_state)"
    by (simp_all add: low_sun_state_def)
  from ticks_INTEGRATE [OF this] have "pwm_count ((pwm_handler ^^ 100) low_sun_state) = 100"
    by (simp add: low_sun_state_def)
  with low_sun_state_reached show ?thesis by simp
qed

text \<open>What the handler does guarantee: below a duty cycle of 100 the counter stays below 100.\<close>

lemma pwm_count_bound:
  "duty_cycle s < 100 \<Longrightarrow> pwm_count s < 100 \<Longrightarrow> pwm_count (pwm_handler s) < 100"
  by (auto simp: pwm_handler_def Let_def not_le not_less)

subsection \<open>The \<open>INTEGRATE\<close> case\<close>



lemma loop_INTEGRATE_fields:
  "loop_INTEGRATE r s = Inr s' \<Longrightarrow>
   cur_state s' = cur_state s \<and> timer_on s' = timer_on s \<and> new_integral s'
   \<and> duty_cycle s' = duty_cycle s \<and> pwm_count s' = pwm_count s"
  by (cases "new_integral s") (auto simp: loop_INTEGRATE_def Let_def split: sum.splits)









subsection \<open>The \<open>MPPT\<close> case, block by block\<close>

lemma mppt_check_fields [simp]:
  "v_battery (mppt_check r s) = vbat r"
  "v_solar (mppt_check r s) = vsol r"
  "duty_cycle (mppt_check r s) = duty_cycle s"
  "integral (mppt_check r s) = integral s"
  "integral_avg (mppt_check r s) = integral_avg s"
  "num_integrals (mppt_check r s) = num_integrals s"
  "new_integral (mppt_check r s) = new_integral s"
  "pwm_count (mppt_check r s) = pwm_count s"
  "duty_inc (mppt_check r s) = duty_inc s"
  "p_prev (mppt_check r s) = p_prev s"
  "sw1 (mppt_check r s) = sw1 s"
  by (simp_all add: mppt_check_def check_solar_def Let_def)

lemma mppt_check_state:
  "cur_state (mppt_check r s) =
     (if VCHARGE \<le> vbat r \<or> vsol r * 98 / 100 < vbat r then DONE else cur_state s)"
  "timer_on (mppt_check r s) =
     (\<not> (VCHARGE \<le> vbat r \<or> vsol r * 98 / 100 < vbat r) \<and> timer_on s)"
  by (auto simp add: mppt_check_def check_solar_def check_battery_state Let_def)

lemma mppt_fold_fields [simp]:
  "cur_state (mppt_fold s) = cur_state s"
  "timer_on (mppt_fold s) = timer_on s"
  "v_battery (mppt_fold s) = v_battery s"
  "v_solar (mppt_fold s) = v_solar s"
  "duty_cycle (mppt_fold s) = duty_cycle s"
  "pwm_count (mppt_fold s) = pwm_count s"
  "duty_inc (mppt_fold s) = duty_inc s"
  "p_prev (mppt_fold s) = p_prev s"
  "new_integral (mppt_fold s) = False"
  by (simp_all add: mppt_fold_def Let_def)

lemma mppt_fold_entry:
  "sw1 (mppt_fold s) = (\<not> new_integral s \<and> sw1 s)"
  "integral_avg (mppt_fold s) =
     (if new_integral s then signed_drop_bit 1 (integral_avg s + integral s)
      else integral_avg s)"
  "num_integrals (mppt_fold s) =
     (if new_integral s then num_integrals s + 1 else num_integrals s)"
  "integral (mppt_fold s) = (if new_integral s then 0 else integral s)"
  by (simp_all add: mppt_fold_def Let_def)

lemma mppt_decide_skip: "num_integrals s \<noteq> NUM_INT \<Longrightarrow> mppt_decide r s = s"
  by (simp add: mppt_decide_def)

lemma mppt_decide_fields [simp]:
  "integral (mppt_decide r s) = integral s"
  "integral_avg (mppt_decide r s) = integral_avg s"
  "new_integral (mppt_decide r s) = new_integral s"
  "sw1 (mppt_decide r s) = sw1 s"
  "pwm_count (mppt_decide r s) = pwm_count s"
  "v_solar (mppt_decide r s) = v_solar s"
  by (simp_all add: mppt_decide_def Let_def)

lemma mppt_decide_state:
  "cur_state (mppt_decide r s) =
     (if num_integrals s = NUM_INT \<and> VCHARGE \<le> vbat2 r then DONE else cur_state s)"
  "timer_on (mppt_decide r s) =
     (\<not> (num_integrals s = NUM_INT \<and> VCHARGE \<le> vbat2 r) \<and> timer_on s)"
  by (auto simp add: mppt_decide_def check_battery_state Let_def)

lemma mppt_decide_run:
  assumes "num_integrals s = NUM_INT"
  shows "p_cur (mppt_decide r s) = vbat2 r * of_long (integral_avg s)"
    and "p_prev (mppt_decide r s) = vbat2 r * of_long (integral_avg s)"
    and "num_integrals (mppt_decide r s) = 0"
    and "v_battery (mppt_decide r s) = vbat2 r"
    and "duty_cycle (mppt_decide r s) =
          (if p_prev s < vbat2 r * of_long (integral_avg s)
           then (if duty_inc s then duty_up (duty_cycle s) else duty_down (duty_cycle s))
           else if vbat2 r * of_long (integral_avg s) < p_prev s
           then (if duty_inc s then duty_down (duty_cycle s) else duty_up (duty_cycle s))
           else duty_cycle s)"
    and "duty_inc (mppt_decide r s) =
          (if p_prev s < vbat2 r * of_long (integral_avg s) then duty_inc s
           else if vbat2 r * of_long (integral_avg s) < p_prev s then \<not> duty_inc s
           else duty_inc s)"
  using assms by (simp_all add: mppt_decide_def Let_def)

text \<open>The two clamped steps: each checks the bound it moves towards.\<close>

lemma duty_up_bounds:
  "duty_up d \<le> D_MAX" "D_MIN \<le> d \<Longrightarrow> d \<le> D_MAX \<Longrightarrow> D_MIN \<le> duty_up d"
  by (auto simp: duty_up_def word_le_nat_alt unat_word_ariths)

lemma duty_down_bounds:
  "D_MIN \<le> duty_down d" "D_MIN \<le> d \<Longrightarrow> d \<le> D_MAX \<Longrightarrow> duty_down d \<le> D_MAX"
  by (auto simp: duty_down_def word_le_nat_alt unat_sub_if')

lemma duty_up_unat: "d \<noteq> 255 \<Longrightarrow> unat (duty_up d) = min 98 (unat d + 1)"
proof -
  assume "d \<noteq> 255"
  have "d + 1 \<noteq> 0"
  proof
    assume "d + 1 = 0"
    then have "d = - 1" by (simp add: eq_neg_iff_add_eq_0)
    then have "d = 255" by simp
    with \<open>d \<noteq> 255\<close> show False by simp
  qed
  then have "1 + d \<noteq> 0" by (simp add: add.commute)
  then have "unat (1 + d) = Suc (unat d)" by (rule unatSuc)
  then have "unat (d + 1) = unat d + 1" by (simp add: add.commute)
  then show ?thesis by (simp add: duty_up_def word_le_nat_alt min_def)
qed

lemma duty_down_unat: "d \<noteq> 0 \<Longrightarrow> unat (duty_down d) = max 5 (unat d - 1)"
  by (simp add: duty_down_def word_le_nat_alt unat_minus_one max_def)

lemma sint_fold:
  assumes "- (2 ^ 31) \<le> sint a + sint i" and "sint a + sint i < 2 ^ 31"
  shows "sint (signed_drop_bit 1 (a + i :: 32 word)) = (sint a + sint i) div 2"
proof -
  have "sint (a + i) = sint a + sint i"
    using assms by (simp add: sint_word_ariths signed_take_bit_int_eq_self)
  then show ?thesis
    by (simp add: sint_signed_drop_bit_eq drop_bit_eq_div)
qed

subsection \<open>The \<open>MPPT\<close> and \<open>DONE\<close> cases as a whole\<close>

lemma loop_MPPT_state:
  "cur_state (loop_MPPT r s) = DONE \<or> cur_state (loop_MPPT r s) = cur_state s"
  "timer_on (loop_MPPT r s) \<Longrightarrow> timer_on s \<and> cur_state (loop_MPPT r s) = cur_state s"
  by (auto simp: loop_MPPT_def mppt_decide_state mppt_check_state split: if_splits)

lemma loop_MPPT_done:
  assumes "VCHARGE \<le> vbat r \<or> vsol r * 98 / 100 < vbat r"
  shows "cur_state (loop_MPPT r s) = DONE" and "\<not> timer_on (loop_MPPT r s)"
  using assms by (auto simp: loop_MPPT_def mppt_decide_state mppt_check_state)

lemma loop_MPPT_switch:
  "sw1 (loop_MPPT r s) = (\<not> new_integral s \<and> sw1 s)" "\<not> new_integral (loop_MPPT r s)"
  by (simp_all add: loop_MPPT_def mppt_fold_entry)

lemma loop_MPPT_duty_bounds:
  assumes "D_MIN \<le> duty_cycle s" and "duty_cycle s \<le> D_MAX"
  shows "D_MIN \<le> duty_cycle (loop_MPPT r s) \<and> duty_cycle (loop_MPPT r s) \<le> D_MAX"
proof -
  let ?m = "mppt_fold (mppt_check r s)"
  have m: "D_MIN \<le> duty_cycle ?m" "duty_cycle ?m \<le> D_MAX" using assms by simp_all
  show ?thesis
  proof (cases "num_integrals ?m = NUM_INT")
    case True
    from mppt_decide_run(5) [OF True, of r] m duty_up_bounds [of "duty_cycle ?m"]
      duty_down_bounds [of "duty_cycle ?m"]
    show ?thesis by (simp add: loop_MPPT_def split: if_splits)
  next
    case False
    from mppt_decide_skip [OF False] m show ?thesis by (simp add: loop_MPPT_def)
  qed
qed

lemma loop_DONE_fields [simp]:
  "\<not> timer_on (loop_DONE r s)" "\<not> sw1 (loop_DONE r s)"
  "duty_cycle (loop_DONE r s) = duty_cycle s"
  "pwm_count (loop_DONE r s) = pwm_count s"
  by (simp_all add: loop_DONE_def Let_def check_solar_def check_battery_state)

text \<open>
  Outside \<open>INIT\<close>, a call of \<^verbatim>\<open>loop()\<close> keeps a duty cycle that is within the bounds
  within the bounds; the handler never writes the duty cycle (\<open>pwm_handler_keeps\<close>).
\<close>

lemma loop_keeps_duty_bounds:
  assumes "cur_state s \<noteq> INIT" and "loop r s = Inr s'"
    and "D_MIN \<le> duty_cycle s" and "duty_cycle s \<le> D_MAX"
  shows "D_MIN \<le> duty_cycle s' \<and> duty_cycle s' \<le> D_MAX"
proof (cases "cur_state s")
  case INIT
  with assms(1) show ?thesis by simp
next
  case INTEGRATE
  with assms(2) have "loop_INTEGRATE r s = Inr s'" by (simp add: loop_def)
  from loop_INTEGRATE_fields [OF this] assms(3,4) show ?thesis by simp
next
  case MPPT
  with assms(2) have "s' = loop_MPPT r s" by (simp add: loop_def)
  with loop_MPPT_duty_bounds [OF assms(3,4)] show ?thesis by simp
next
  case DONE
  with assms(2) have "s' = loop_DONE r s" by (simp add: loop_def)
  with assms(3,4) show ?thesis by simp
qed

text \<open>A call of \<^verbatim>\<open>loop()\<close> leaves the counter of the handler alone or resets it.\<close>

lemma loop_keeps_pwm_count:
  assumes "loop r s = Inr s'"
  shows "pwm_count s' = pwm_count s \<or> pwm_count s' = 0"
proof (cases "cur_state s")
  case INIT
  with assms have "loop_INIT r s = Inr s'" by (simp add: loop_def)
  from loop_INIT_fields [OF this] show ?thesis by simp
next
  case INTEGRATE
  with assms have "loop_INTEGRATE r s = Inr s'" by (simp add: loop_def)
  from loop_INTEGRATE_fields [OF this] show ?thesis by simp
next
  case MPPT
  with assms have "s' = loop_MPPT r s" by (simp add: loop_def)
  then show ?thesis by (simp add: loop_MPPT_def)
next
  case DONE
  with assms have "s' = loop_DONE r s" by (simp add: loop_def)
  then show ?thesis by simp
qed

subsection \<open>Invariants of the reachable states\<close>

lemma reachable_ticks: "reachable s \<Longrightarrow> reachable ((pwm_handler ^^ n) s)"
  by (induction n) (simp_all add: reachable.tick)

lemma off_phase_state_reachable: "reachable off_phase_state"
proof -
  from reachable.dispatch [OF reachable.power_up nominal_state_reached]
  have "reachable nominal_state" .
  from reachable_ticks [OF this, of 67] show ?thesis
    by (simp add: off_phase_state_reached)
qed

text \<open>While the timer is on, the state is one of the two phases.\<close>

lemma reachable_timer_phase:
  "reachable s \<Longrightarrow> timer_on s \<Longrightarrow> cur_state s = INTEGRATE \<or> cur_state s = MPPT"
proof (induction rule: reachable.induct)
  case power_up
  then show ?case by (simp add: setup_charger_def)
next
  case (tick s)
  then show ?case using pwm_handler_state [of s] by auto
next
  case (dispatch s r s')
  show ?case
  proof (cases "cur_state s")
    case INIT
    with dispatch.hyps(2) show ?thesis by (auto simp: loop_def dest: loop_INIT_fields)
  next
    case INTEGRATE
    with dispatch.hyps(2) show ?thesis by (auto simp: loop_def dest: loop_INTEGRATE_fields)
  next
    case MPPT
    with dispatch.hyps(2) have "s' = loop_MPPT r s" by (simp add: loop_def)
    with loop_MPPT_state(2) [of r s] dispatch.prems MPPT show ?thesis by simp
  next
    case DONE
    with dispatch.hyps(2) have "s' = loop_DONE r s" by (simp add: loop_def)
    with dispatch.prems show ?thesis by simp
  qed
qed

text \<open>The switch is on only between the entry into a phase of integration and its fold.\<close>

lemma reachable_switch_flag:
  "reachable s \<Longrightarrow> sw1 s \<Longrightarrow> new_integral s \<and> cur_state s \<noteq> INIT"
proof (induction rule: reachable.induct)
  case power_up
  then show ?case by (simp add: setup_charger_def)
next
  case (tick s)
  then show ?case by (auto simp: pwm_handler_def Let_def split: if_splits)
next
  case (dispatch s r s')
  show ?case
  proof (cases "cur_state s")
    case INIT
    with dispatch show ?thesis by (auto simp: loop_def dest: loop_INIT_fields)
  next
    case INTEGRATE
    with dispatch.hyps(2) show ?thesis by (auto simp: loop_def dest: loop_INTEGRATE_fields)
  next
    case MPPT
    with dispatch.hyps(2) have s': "s' = loop_MPPT r s" by (simp add: loop_def)
    with dispatch.prems have "sw1 s" "\<not> new_integral s" by (simp_all add: loop_MPPT_switch)
    with dispatch.IH show ?thesis by simp
  next
    case DONE
    with dispatch.hyps(2) have "s' = loop_DONE r s" by (simp add: loop_def)
    with dispatch.prems show ?thesis by simp
  qed
qed

subsection \<open>The \<open>MPPT\<close> case: entry, decision, and the way out\<close>

text \<open>
  Claim C6. On a call in the \<open>MPPT\<close> state with \<open>new_integral\<close> still set, the call
  returns with the switch off, the average replaced by the sum of average and integral
  shifted right by one bit (half the sum, rounded down, when the sum fits 32 bits), the
  integral reset to 0 and the flag cleared; the count of integrals is one more than
  before, or 0 when that reached \<open>NUM_INT\<close> and the decision ran in the same call. A
  further \<open>MPPT\<close> cycle on the state left behind changes none of these.
\<close>

theorem mppt_entry_fold:
  assumes "cur_state s = MPPT" and "new_integral s"
  shows "\<exists>s'. loop r s = Inr s' \<and> \<not> sw1 s'
     \<and> integral_avg s' = signed_drop_bit 1 (integral_avg s + integral s)
     \<and> (- (2 ^ 31) \<le> sint (integral_avg s) + sint (integral s)
          \<and> sint (integral_avg s) + sint (integral s) < 2 ^ 31 \<longrightarrow>
        sint (integral_avg s') = (sint (integral_avg s) + sint (integral s)) div 2)
     \<and> num_integrals s' = (if num_integrals s + 1 = NUM_INT then 0 else num_integrals s + 1)
     \<and> integral s' = 0 \<and> \<not> new_integral s'
     \<and> (\<forall>r2. integral_avg (loop_MPPT r2 s') = integral_avg s'
              \<and> num_integrals (loop_MPPT r2 s') = num_integrals s'
              \<and> integral (loop_MPPT r2 s') = integral s'
              \<and> sw1 (loop_MPPT r2 s') = sw1 s')"
proof -
  let ?m = "mppt_fold (mppt_check r s)"
  let ?s' = "loop_MPPT r s"
  have run: "loop r s = Inr ?s'"
    using assms(1) by (simp add: loop_def)
  have avg: "integral_avg ?s' = signed_drop_bit 1 (integral_avg s + integral s)"
    and sw: "\<not> sw1 ?s'" and int: "integral ?s' = 0" and flag: "\<not> new_integral ?s'"
    using assms(2) by (simp_all add: loop_MPPT_def mppt_fold_entry)
  have m: "num_integrals ?m = num_integrals s + 1"
    using assms(2) by (simp add: mppt_fold_entry)
  have num: "num_integrals ?s'
      = (if num_integrals s + 1 = NUM_INT then 0 else num_integrals s + 1)"
  proof (cases "num_integrals s + 1 = NUM_INT")
    case True
    with m have "num_integrals ?m = NUM_INT" by simp
    from mppt_decide_run(3) [OF this] True show ?thesis by (simp add: loop_MPPT_def)
  next
    case False
    with m have "num_integrals ?m \<noteq> NUM_INT" by simp
    from mppt_decide_skip [OF this] False m show ?thesis by (simp add: loop_MPPT_def)
  qed
  then have not10: "num_integrals ?s' \<noteq> NUM_INT" by (simp split: if_splits)
  have again: "integral_avg (loop_MPPT r2 ?s') = integral_avg ?s'
      \<and> num_integrals (loop_MPPT r2 ?s') = num_integrals ?s'
      \<and> integral (loop_MPPT r2 ?s') = integral ?s'
      \<and> sw1 (loop_MPPT r2 ?s') = sw1 ?s'" for r2
  proof -
    let ?k = "mppt_fold (mppt_check r2 ?s')"
    have "num_integrals ?k = num_integrals ?s'"
      using flag by (simp add: mppt_fold_entry)
    with not10 have "mppt_decide r2 ?k = ?k"
      by (simp add: mppt_decide_skip)
    then have "loop_MPPT r2 ?s' = ?k"
      by (simp add: loop_MPPT_def)
    then show ?thesis
      using flag by (simp add: mppt_fold_entry)
  qed
  have half: "sint (integral_avg ?s') = (sint (integral_avg s) + sint (integral s)) div 2"
    if "- (2 ^ 31) \<le> sint (integral_avg s) + sint (integral s)"
      and "sint (integral_avg s) + sint (integral s) < 2 ^ 31"
    using sint_fold [OF that] avg by simp
  from run sw avg half num int flag again show ?thesis
    by blast
qed

text \<open>
  Claim C6 on an entry with an average of \<open>- 10\<close> and an integral of 7: the new
  average is \<open>- 2\<close>, the count goes from 3 to 4, and a second cycle leaves both.
\<close>

theorem mppt_entry_fold_witness:
  "cur_state entry_state = MPPT \<and> new_integral entry_state \<and> sw1 entry_state
   \<and> sint (integral_avg entry_state) + sint (integral entry_state) = - 3
   \<and> (\<exists>s'. loop nominal_readings entry_state = Inr s' \<and> \<not> sw1 s'
          \<and> sint (integral_avg s') = - 2 \<and> num_integrals s' = 4 \<and> integral s' = 0
          \<and> \<not> new_integral s'
          \<and> integral_avg (loop_MPPT nominal_readings s') = integral_avg s'
          \<and> num_integrals (loop_MPPT nominal_readings s') = 4)"
proof -
  have h: "cur_state entry_state = MPPT" "new_integral entry_state"
    by (simp_all add: entry_state_def)
  have v: "sint (integral_avg entry_state) + sint (integral entry_state) = - 3"
    "sw1 entry_state" "num_integrals entry_state + 1 = 4"
    by (simp_all add: entry_state_def)
  from mppt_entry_fold [OF h, of nominal_readings] obtain s' where
    s': "loop nominal_readings entry_state = Inr s'" "\<not> sw1 s'"
      "- (2 ^ 31) \<le> sint (integral_avg entry_state) + sint (integral entry_state)
         \<and> sint (integral_avg entry_state) + sint (integral entry_state) < 2 ^ 31 \<longrightarrow>
       sint (integral_avg s')
         = (sint (integral_avg entry_state) + sint (integral entry_state)) div 2"
      "num_integrals s' = (if num_integrals entry_state + 1 = NUM_INT then 0
                           else num_integrals entry_state + 1)"
      "integral s' = 0" "\<not> new_integral s'"
      "\<forall>r2. integral_avg (loop_MPPT r2 s') = integral_avg s'
              \<and> num_integrals (loop_MPPT r2 s') = num_integrals s'
              \<and> integral (loop_MPPT r2 s') = integral s'
              \<and> sw1 (loop_MPPT r2 s') = sw1 s'"
    by blast
  from s'(3) have a: "sint (integral_avg s') = - 2" by (simp add: v)
  from s'(4) have n: "num_integrals s' = 4" by (simp add: v)
  from s'(7) n have "integral_avg (loop_MPPT nominal_readings s') = integral_avg s'"
    "num_integrals (loop_MPPT nominal_readings s') = 4" by simp_all
  with s'(1,2,5,6) a n h v show ?thesis by blast
qed




text \<open>
  Claim C8. On a call in the \<open>MPPT\<close> state whose readings satisfy
  \<open>v_solar * D_MAX / 100 < v_battery\<close>, the call returns with \<open>timer_on\<close> false and
  the state \<open>DONE\<close>. The handler then leaves that state as it is, so the next call of
  \<^verbatim>\<open>loop()\<close> runs the \<open>DONE\<close> case, which drives the switch off, whatever it reads.
  In a reachable state the switch is off already when the \<open>MPPT\<close> call returns.
\<close>

theorem mppt_insufficient_source:
  assumes "cur_state s = MPPT" and "vsol r * 98 / 100 < vbat r"
  shows "\<exists>s'. loop r s = Inr s' \<and> \<not> timer_on s' \<and> cur_state s' = DONE
     \<and> pwm_handler s' = s'
     \<and> (reachable s \<longrightarrow> \<not> sw1 s')
     \<and> (\<forall>r'. \<exists>s''. loop r' s' = Inr s'' \<and> \<not> sw1 s'' \<and> \<not> timer_on s'')"
proof -
  let ?s' = "loop_MPPT r s"
  have run: "loop r s = Inr ?s'"
    using assms(1) by (simp add: loop_def)
  have fin: "cur_state ?s' = DONE" and off: "\<not> timer_on ?s'"
    using loop_MPPT_done [of r s] assms(2) by simp_all
  from off have inert: "pwm_handler ?s' = ?s'"
    by (rule pwm_handler_off)
  have sw: "\<not> sw1 ?s'" if "reachable s"
    using reachable_switch_flag [OF that] by (auto simp: loop_MPPT_switch)
  have next_dispatch: "\<exists>s''. loop r' ?s' = Inr s'' \<and> \<not> sw1 s'' \<and> \<not> timer_on s''" for r'
    using fin by (simp add: loop_def)
  from run off fin inert sw next_dispatch show ?thesis
    by blast
qed

text \<open>
  Claim C8 on the first \<open>MPPT\<close> tick after power-up at 12 V and 18 V, when the panel
  has dropped to 10 V.
\<close>

theorem mppt_insufficient_source_witness:
  "cur_state off_phase_state = MPPT \<and> vsol dusk_readings * 98 / 100 < vbat dusk_readings
   \<and> reachable off_phase_state
   \<and> (\<exists>s'. loop dusk_readings off_phase_state = Inr s' \<and> \<not> timer_on s'
          \<and> cur_state s' = DONE \<and> \<not> sw1 s' \<and> pwm_handler s' = s'
          \<and> (\<exists>s''. loop nominal_readings s' = Inr s'' \<and> \<not> sw1 s'' \<and> \<not> timer_on s''))"
proof -
  have h: "cur_state off_phase_state = MPPT"
    "vsol dusk_readings * 98 / 100 < vbat dusk_readings"
    by (simp_all add: off_phase_state_def dusk_readings_def)
  from mppt_insufficient_source [OF h] off_phase_state_reachable h show ?thesis
    by blast
qed



end
